theory Spec2Isabelle
  imports Complex_Main "HOL-Library.Word"
begin

unbundle bit_operations_syntax

section \<open>Python values\<close>

text \<open>
  The values that \<^verbatim>\<open>json.loads\<close> produces. A Python \<^verbatim>\<open>dict\<close> is an association list
  read with \<open>map_of\<close>; a \<^verbatim>\<open>float\<close> is the rational it denotes (NaN and the infinities
  are outside the model); a \<^verbatim>\<open>str\<close> is the list of the bytes of its UTF-8 encoding.
\<close>

datatype json =
    JNull
  | JBool bool
  | JInt int
  | JFloat rat
  | JStr string
  | JArr "json list"
  | JObj "(string \<times> json) list"

datatype error =
    RuntimeError string
  | ValueError string
  | TimeoutError string
  | JSONDecodeError
  | WebSocketTimeoutException
  | WebSocketConnectionClosedException
  | AttributeError
  | KeyError string
  | TypeError

text \<open>Python's truth value of an object, as \<^verbatim>\<open>not x\<close> and \<^verbatim>\<open>x or y\<close> test it.\<close>

fun truthy :: "json \<Rightarrow> bool" where
  "truthy JNull = False"
| "truthy (JBool b) = b"
| "truthy (JInt i) = (i \<noteq> 0)"
| "truthy (JFloat r) = (r \<noteq> 0)"
| "truthy (JStr s) = (s \<noteq> [])"
| "truthy (JArr xs) = (xs \<noteq> [])"
| "truthy (JObj kvs) = (kvs \<noteq> [])"

text \<open>\<^verbatim>\<open>isinstance(msg, dict)\<close>.\<close>

fun isinstance_dict :: "json \<Rightarrow> bool" where
  "isinstance_dict (JObj kvs) = True"
| "isinstance_dict v = False"

text \<open>
  \<^verbatim>\<open>d.get(key, default)\<close>: the value stored under the key, the default when the key is
  absent; an object that is not a dict has no \<^verbatim>\<open>get\<close>.
\<close>

fun dict_get :: "json \<Rightarrow> string \<Rightarrow> json \<Rightarrow> error + json" where
  "dict_get (JObj kvs) key dflt =
     (case map_of kvs key of None \<Rightarrow> Inr dflt | Some v \<Rightarrow> Inr v)"
| "dict_get v key dflt = Inl AttributeError"

text \<open>\<^verbatim>\<open>isinstance(msg, dict) and msg.get(key) == value\<close>, for a string \<open>value\<close>.\<close>

definition dict_tag_is :: "json \<Rightarrow> string \<Rightarrow> string \<Rightarrow> bool" where
  "dict_tag_is msg key val \<longleftrightarrow>
     isinstance_dict msg \<and> dict_get msg key JNull = Inr (JStr val)"

text \<open>\<^verbatim>\<open>isinstance(msg, dict) and msg.get(key) in values\<close>, for a list of strings.\<close>

definition dict_tag_in :: "json \<Rightarrow> string \<Rightarrow> string list \<Rightarrow> bool" where
  "dict_tag_in msg key vals \<longleftrightarrow>
     isinstance_dict msg \<and> (\<exists>val \<in> set vals. dict_get msg key JNull = Inr (JStr val))"

text \<open>\<^verbatim>\<open>d.update(other)\<close>: every pair of \<open>other\<close>, in order, stored into \<open>d\<close>.\<close>

fun dict_store :: "string \<Rightarrow> json \<Rightarrow> (string \<times> json) list \<Rightarrow> (string \<times> json) list" where
  "dict_store k v [] = [(k, v)]"
| "dict_store k v ((k', v') # kvs) =
     (if k = k' then (k, v) # kvs else (k', v') # dict_store k v kvs)"

fun dict_update :: "(string \<times> json) list \<Rightarrow> (string \<times> json) list \<Rightarrow> (string \<times> json) list" where
  "dict_update d [] = d"
| "dict_update d ((k, v) # other) = dict_update (dict_store k v d) other"

text \<open>\<^verbatim>\<open>str(n)\<close> of an integer: its decimal digits, with a minus sign when negative.\<close>

definition digit_char :: "nat \<Rightarrow> char" where
  "digit_char n = ''0123456789'' ! n"

fun str_nat :: "nat \<Rightarrow> string" where
  "str_nat n = (if n < 10 then [digit_char n] else str_nat (n div 10) @ [digit_char (n mod 10)])"

declare str_nat.simps [simp del]

definition str_int :: "int \<Rightarrow> string" where
  "str_int i = (if i < 0 then CHR ''-'' # str_nat (nat (- i)) else str_nat (nat i))"

section \<open>The connection and its environment\<close>

text \<open>
  What one call of \<^verbatim>\<open>ws.recv()\<close> followed by \<^verbatim>\<open>json.loads\<close> can do: the receive raises
  (a timeout of the socket, a closed connection), the received text is not JSON, or it
  decodes to a value.
\<close>

datatype recv_outcome =
    Recv_raises error
  | Recv_not_json
  | Recv_json json

text \<open>
  The environment of a run, fixed from outside the client: the reading of the clock at
  each call of \<^verbatim>\<open>time.time()\<close>, the outcome of each receive, whether each send and each
  connection attempt raises, and Python's \<^verbatim>\<open>repr\<close> of values that are not strings.
\<close>

record env =
  clock :: "nat \<Rightarrow> rat"
  inbox :: "nat \<Rightarrow> recv_outcome"
  send_raises :: "nat \<Rightarrow> error option"
  connect_raises :: "nat \<Rightarrow> error option"
  py_repr :: "json \<Rightarrow> string"

text \<open>The \<^verbatim>\<open>websocket.WebSocket\<close> object: its timeout setting.\<close>

record websocket =
  sock_timeout :: "rat option"

text \<open>
  The fields of \<^verbatim>\<open>KrakenWebSocketClient\<close>, followed by the counters of the calls made to
  the outside so far and the log of the requests sent.
\<close>

record state =
  url :: string
  timeout :: rat
  ws :: "websocket option"
  messages :: "json list"
  ticks :: nat
  recvs :: nat
  sends :: nat
  connects :: nat
  closes :: nat
  sent :: "json list"

definition init :: "string \<Rightarrow> rat \<Rightarrow> state" where
  "init u t =
     \<lparr>url = u, timeout = t, ws = None, messages = [],
      ticks = 0, recvs = 0, sends = 0, connects = 0, closes = 0, sent = []\<rparr>"

text \<open>\<^verbatim>\<open>time.time()\<close>.\<close>

definition time_time :: "env \<Rightarrow> state \<Rightarrow> rat \<times> state" where
  "time_time e st = (clock e (ticks st), st\<lparr>ticks := Suc (ticks st)\<rparr>)"

text \<open>
  \<^verbatim>\<open>str(x)\<close>: a string is itself, an integer is its decimal digits, and a float, a list
  or a dict is printed by \<^verbatim>\<open>repr\<close>.
\<close>

definition py_str :: "env \<Rightarrow> json \<Rightarrow> string" where
  "py_str e v =
     (case v of
        JStr s \<Rightarrow> s
      | JInt i \<Rightarrow> str_int i
      | JBool b \<Rightarrow> (if b then ''True'' else ''False'')
      | JNull \<Rightarrow> ''None''
      | _ \<Rightarrow> py_repr e v)"

text \<open>\<^verbatim>\<open>timeout or self.timeout\<close>.\<close>

definition effective :: "rat option \<Rightarrow> state \<Rightarrow> rat" where
  "effective t st = (case t of None \<Rightarrow> timeout st | Some x \<Rightarrow> if x \<noteq> 0 then x else timeout st)"

section \<open>KrakenWebSocketClient\<close>

definition connect :: "env \<Rightarrow> state \<Rightarrow> (error + unit) \<times> state" where
  "connect e st =
     (let st1 = st\<lparr>connects := Suc (connects st)\<rparr> in
      case connect_raises e (connects st) of
        Some err \<Rightarrow> (Inl err, st1)
      | None \<Rightarrow> (Inr (), st1\<lparr>ws := Some \<lparr>sock_timeout = Some (timeout st)\<rparr>\<rparr>))"

definition disconnect :: "state \<Rightarrow> state" where
  "disconnect st =
     (case ws st of
        None \<Rightarrow> st
      | Some w \<Rightarrow> st\<lparr>closes := Suc (closes st), ws := None\<rparr>)"

text \<open>\<^verbatim>\<open>self.ws.send(json.dumps(request))\<close>.\<close>

definition ws_send :: "env \<Rightarrow> json \<Rightarrow> state \<Rightarrow> error option \<times> state" where
  "ws_send e request st =
     (case send_raises e (sends st) of
        Some err \<Rightarrow> (Some err, st\<lparr>sends := Suc (sends st)\<rparr>)
      | None \<Rightarrow> (None, st\<lparr>sends := Suc (sends st), sent := sent st @ [request]\<rparr>))"

text \<open>\<^verbatim>\<open>self.ws.settimeout(t)\<close>.\<close>

definition settimeout :: "rat option \<Rightarrow> state \<Rightarrow> state" where
  "settimeout t st =
     (case ws st of None \<Rightarrow> st | Some w \<Rightarrow> st\<lparr>ws := Some (w\<lparr>sock_timeout := t\<rparr>)\<rparr>)"

definition receive_message :: "env \<Rightarrow> rat option \<Rightarrow> state \<Rightarrow> (error + json) \<times> state" where
  "receive_message e t st =
     (case ws st of
        None \<Rightarrow> (Inl (RuntimeError ''Not connected. Call connect() first.''), st)
      | Some w \<Rightarrow>
          let original_timeout = sock_timeout w;
              st1 = (case t of None \<Rightarrow> st | Some x \<Rightarrow> settimeout (Some x) st);
              st2 = st1\<lparr>recvs := Suc (recvs st1)\<rparr>;
              result = (case inbox e (recvs st1) of
                          Recv_raises err \<Rightarrow> Inl err
                        | Recv_not_json \<Rightarrow> Inl JSONDecodeError
                        | Recv_json message \<Rightarrow> Inr message)
          in (result, settimeout original_timeout st2))"

text \<open>
  The loop of \<^verbatim>\<open>_wait_for_method\<close>. It has no bound of its own: it runs until the clock
  passes the deadline, a receive raises or the tagged message arrives, so a run that never
  returns is the value \<open>None\<close>.
\<close>

partial_function (option) wait_loop ::
  "env \<Rightarrow> string \<Rightarrow> rat \<Rightarrow> rat \<Rightarrow> state \<Rightarrow> ((error + json) \<times> state) option" where
  "wait_loop e method start_time effective_timeout st =
     (let now = fst (time_time e st); st1 = snd (time_time e st);
          elapsed = now - start_time
      in if elapsed > effective_timeout
         then Some (Inl (TimeoutError (''Timeout waiting for method: '' @ method)), st1)
         else
           let remaining = effective_timeout - elapsed;
               r = receive_message e (Some remaining) st1
           in case fst r of
                Inl err \<Rightarrow> Some (Inl err, snd r)
              | Inr msg \<Rightarrow>
                  if dict_tag_is msg ''method'' method then Some (Inr msg, snd r)
                  else wait_loop e method start_time effective_timeout (snd r))"

definition wait_for_method ::
  "env \<Rightarrow> string \<Rightarrow> rat option \<Rightarrow> state \<Rightarrow> ((error + json) \<times> state) option" where
  "wait_for_method e method t st =
     (let start_time = fst (time_time e st); st1 = snd (time_time e st);
          effective_timeout = effective t st
      in wait_loop e method start_time effective_timeout st1)"

text \<open>The request both \<^verbatim>\<open>subscribe\<close> and \<^verbatim>\<open>unsubscribe\<close> build, apart from its method.\<close>

definition request_of ::
  "string \<Rightarrow> string \<Rightarrow> string list \<Rightarrow> (string \<times> json) list \<Rightarrow> json" where
  "request_of method channel symbol options =
     (let params = dict_update
            [(''channel'', JStr channel), (''symbol'', JArr (map JStr symbol))] options
      in JObj [(''method'', JStr method), (''params'', JObj params)])"

definition subscribe ::
  "env \<Rightarrow> string \<Rightarrow> string list \<Rightarrow> (string \<times> json) list \<Rightarrow> state
     \<Rightarrow> ((error + json) \<times> state) option" where
  "subscribe e channel symbol options st =
     (case ws st of
        None \<Rightarrow> Some (Inl (RuntimeError ''Not connected. Call connect() first.''), st)
      | Some w \<Rightarrow>
          (case ws_send e (request_of ''subscribe'' channel symbol options) st of
             (Some err, st1) \<Rightarrow> Some (Inl err, st1)
           | (None, st1) \<Rightarrow>
               (case wait_for_method e ''subscribe'' None st1 of
                  None \<Rightarrow> None
                | Some (Inl err, st2) \<Rightarrow> Some (Inl err, st2)
                | Some (Inr ack, st2) \<Rightarrow>
                    (case dict_get ack ''success'' JNull of
                       Inl err \<Rightarrow> Some (Inl err, st2)
                     | Inr success \<Rightarrow>
                         if \<not> truthy success then
                           (case dict_get ack ''error'' (JStr ''Unknown error'') of
                              Inl err \<Rightarrow> Some (Inl err, st2)
                            | Inr err_detail \<Rightarrow>
                                Some (Inl (ValueError
                                  (''Subscription failed: '' @ py_str e err_detail)), st2))
                         else Some (Inr ack, st2)))))"

definition unsubscribe ::
  "env \<Rightarrow> string \<Rightarrow> string list \<Rightarrow> (string \<times> json) list \<Rightarrow> state
     \<Rightarrow> ((error + json) \<times> state) option" where
  "unsubscribe e channel symbol options st =
     (case ws st of
        None \<Rightarrow> Some (Inl (RuntimeError ''Not connected. Call connect() first.''), st)
      | Some w \<Rightarrow>
          (case ws_send e (request_of ''unsubscribe'' channel symbol options) st of
             (Some err, st1) \<Rightarrow> Some (Inl err, st1)
           | (None, st1) \<Rightarrow> wait_for_method e ''unsubscribe'' None st1))"

text \<open>
  The loop of \<^verbatim>\<open>receive_messages\<close>, with the list collected so far. The body of the
  \<^verbatim>\<open>try\<close> raises only in \<^verbatim>\<open>receive_message\<close>; the deadline check is outside it.
\<close>

partial_function (option) receive_loop ::
  "env \<Rightarrow> int \<Rightarrow> rat \<Rightarrow> rat \<Rightarrow> json list \<Rightarrow> state \<Rightarrow> ((error + json list) \<times> state) option" where
  "receive_loop e count start_time effective_timeout msgs st =
     (if \<not> int (length msgs) < count then Some (Inr msgs, st)
      else
        let now = fst (time_time e st); st1 = snd (time_time e st);
            elapsed = now - start_time
        in if elapsed > effective_timeout
           then Some (Inl (TimeoutError (''Timeout receiving messages. Got ''
                         @ str_int (int (length msgs)) @ ''/'' @ str_int count)), st1)
           else
             let remaining = effective_timeout - elapsed;
                 r = receive_message e (Some remaining) st1
             in case fst r of
                  Inr msg \<Rightarrow>
                    if dict_tag_is msg ''channel'' ''heartbeat''
                    then receive_loop e count start_time effective_timeout msgs (snd r)
                    else if dict_tag_is msg ''channel'' ''status''
                    then receive_loop e count start_time effective_timeout msgs (snd r)
                    else if dict_tag_in msg ''method'' [''subscribe'', ''unsubscribe'']
                    then receive_loop e count start_time effective_timeout msgs (snd r)
                    else receive_loop e count start_time effective_timeout (msgs @ [msg]) (snd r)
                | Inl err \<Rightarrow>
                    if length msgs > 0 then Some (Inr msgs, snd r)
                    else Some (Inl err, snd r))"

definition receive_messages ::
  "env \<Rightarrow> int \<Rightarrow> rat option \<Rightarrow> state \<Rightarrow> ((error + json list) \<times> state) option" where
  "receive_messages e count t st =
     (let start_time = fst (time_time e st); st1 = snd (time_time e st);
          effective_timeout = effective t st
      in receive_loop e count start_time effective_timeout [] st1)"

section \<open>The order-book checksum of the book tests\<close>

text \<open>\<^verbatim>\<open>obj[key]\<close> with a string key: only a dict that holds the key has a value there.\<close>

fun subscript :: "json \<Rightarrow> string \<Rightarrow> error + json" where
  "subscript (JObj kvs) key =
     (case map_of kvs key of None \<Rightarrow> Inl (KeyError key) | Some v \<Rightarrow> Inr v)"
| "subscript v key = Inl TypeError"

text \<open>\<^verbatim>\<open>xs[:depth]\<close>: a negative bound counts from the end of the list.\<close>

definition slice_to :: "int \<Rightarrow> 'a list \<Rightarrow> 'a list" where
  "slice_to depth xs =
     (if 0 \<le> depth then take (nat depth) xs else take (length xs - nat (- depth)) xs)"

text \<open>\<^verbatim>\<open>s.replace('.', '')\<close>.\<close>

definition remove_points :: "string \<Rightarrow> string" where
  "remove_points s = filter (\<lambda>c. c \<noteq> CHR ''.'') s"

text \<open>
  \<^verbatim>\<open>zlib.crc32\<close> of a byte string: the CRC-32 of zlib, with the reflected polynomial
  \<open>0xEDB88320\<close>, the register started at \<open>0xFFFFFFFF\<close> and complemented at the end,
  computed one bit at a time.
\<close>

definition crc_shift :: "32 word \<Rightarrow> 32 word" where
  "crc_shift c = (if bit c 0 then drop_bit 1 c XOR 0xEDB88320 else drop_bit 1 c)"

definition crc_byte :: "32 word \<Rightarrow> char \<Rightarrow> 32 word" where
  "crc_byte c b = (crc_shift ^^ 8) (c XOR of_char b)"

definition zlib_crc32 :: "string \<Rightarrow> 32 word" where
  "zlib_crc32 bytes = foldl crc_byte 0xFFFFFFFF bytes XOR 0xFFFFFFFF"

text \<open>
  The two strings one level appends to \<^verbatim>\<open>checksum_parts\<close>: its price, then its quantity,
  each printed and with its points removed.
\<close>

definition level_parts :: "env \<Rightarrow> json \<Rightarrow> error + string list" where
  "level_parts e lvl =
     (case subscript lvl ''price'' of
        Inl err \<Rightarrow> Inl err
      | Inr price \<Rightarrow>
          (case subscript lvl ''qty'' of
             Inl err \<Rightarrow> Inl err
           | Inr qty \<Rightarrow> Inr [remove_points (py_str e price), remove_points (py_str e qty)]))"

text \<open>
  The loop \<^verbatim>\<open>for i in range(max(len(top_asks), len(top_bids)))\<close>, from index \<open>i\<close> up to
  the bound \<open>n\<close>, with the parts appended so far.
\<close>

function checksum_loop ::
  "env \<Rightarrow> json list \<Rightarrow> json list \<Rightarrow> nat \<Rightarrow> nat \<Rightarrow> string list \<Rightarrow> error + string list" where
  "checksum_loop e top_asks top_bids i n checksum_parts =
     (if i < n then
        (case (if i < length top_asks
               then (case level_parts e (top_asks ! i) of
                       Inl err \<Rightarrow> Inl err
                     | Inr ps \<Rightarrow> Inr (checksum_parts @ ps))
               else Inr checksum_parts) of
           Inl err \<Rightarrow> Inl err
         | Inr parts1 \<Rightarrow>
             (case (if i < length top_bids
                    then (case level_parts e (top_bids ! i) of
                            Inl err \<Rightarrow> Inl err
                          | Inr ps \<Rightarrow> Inr (parts1 @ ps))
                    else Inr parts1) of
                Inl err \<Rightarrow> Inl err
              | Inr parts2 \<Rightarrow> checksum_loop e top_asks top_bids (Suc i) n parts2))
      else Inr checksum_parts)"
  by pat_completeness auto
termination
  by (relation "measure (\<lambda>(e, top_asks, top_bids, i, n, checksum_parts). n - i)") auto

declare checksum_loop.simps [simp del]

definition calculate_book_checksum :: "env \<Rightarrow> json list \<Rightarrow> json list \<Rightarrow> int \<Rightarrow> error + int" where
  "calculate_book_checksum e bids asks depth =
     (let top_bids = slice_to depth bids;
          top_asks = slice_to depth asks
      in case checksum_loop e top_asks top_bids 0 (max (length top_asks) (length top_bids)) [] of
           Inl err \<Rightarrow> Inl err
         | Inr checksum_parts \<Rightarrow>
             let checksum_string = concat checksum_parts;
                 crc = uint (zlib_crc32 checksum_string)
             in Inr (crc AND 0xFFFFFFFF))"

text \<open>\<^verbatim>\<open>isinstance(x, int)\<close>, which holds of a \<^verbatim>\<open>bool\<close> too, and the integer such a value is.\<close>

fun isinstance_int :: "json \<Rightarrow> bool" where
  "isinstance_int (JInt i) = True"
| "isinstance_int (JBool b) = True"
| "isinstance_int v = False"

fun int_value :: "json \<Rightarrow> int" where
  "int_value (JInt i) = i"
| "int_value (JBool b) = (if b then 1 else 0)"
| "int_value v = 0"

text \<open>
  Step 7 of \<^verbatim>\<open>test_book_data_integrity_constraints\<close>, from the violations found so far:
  a failed assertion is caught and appended, any other exception leaves the test, and
  the comparison of the two checksums is commented out.
\<close>

definition checksum_validation ::
  "env \<Rightarrow> json \<Rightarrow> json list \<Rightarrow> json list \<Rightarrow> string list \<Rightarrow> error + string list" where
  "checksum_validation e checksum bids asks violations =
     (if \<not> isinstance_int checksum then Inr (violations @ [''checksum must be an integer''])
      else if \<not> int_value checksum > 0 then Inr (violations @ [''checksum must be positive''])
      else
        (case calculate_book_checksum e bids asks 10 of
           Inl err \<Rightarrow> Inl err
         | Inr calculated \<Rightarrow> Inr violations))"

text \<open>
  The string the checksum is described over: level by level, the price and quantity
  strings of the ask, then those of the bid, while either side has levels left.
\<close>

definition level_text :: "env \<Rightarrow> json \<Rightarrow> string" where
  "level_text e lvl =
     (case level_parts e lvl of Inl err \<Rightarrow> [] | Inr ps \<Rightarrow> concat ps)"

fun interleaved :: "env \<Rightarrow> json list \<Rightarrow> json list \<Rightarrow> string" where
  "interleaved e [] [] = []"
| "interleaved e (a # asks) [] = level_text e a @ interleaved e asks []"
| "interleaved e [] (b # bids) = level_text e b @ interleaved e [] bids"
| "interleaved e (a # asks) (b # bids) = level_text e a @ level_text e b @ interleaved e asks bids"

text \<open>A level that has a price and a quantity.\<close>

definition is_level :: "json \<Rightarrow> bool" where
  "is_level lvl \<longleftrightarrow>
     (case subscript lvl ''price'' of Inl err \<Rightarrow> False | Inr p \<Rightarrow>
        (case subscript lvl ''qty'' of Inl err \<Rightarrow> False | Inr q \<Rightarrow> True))"

section \<open>Runs of the session\<close>

text \<open>The state after \<open>n\<close> further iterations of a loop that reads the clock and receives.\<close>

definition advance :: "nat \<Rightarrow> state \<Rightarrow> state" where
  "advance n st = st\<lparr>ticks := ticks st + n, recvs := recvs st + n\<rparr>"

text \<open>The three tests by which \<^verbatim>\<open>receive_messages\<close> skips a message.\<close>

definition filtered_out :: "json \<Rightarrow> bool" where
  "filtered_out msg \<longleftrightarrow>
     dict_tag_is msg ''channel'' ''heartbeat'' \<or> dict_tag_is msg ''channel'' ''status''
     \<or> dict_tag_in msg ''method'' [''subscribe'', ''unsubscribe'']"

fun decoded :: "recv_outcome \<Rightarrow> json list" where
  "decoded (Recv_json m) = [m]"
| "decoded r = []"

fun is_json :: "recv_outcome \<Rightarrow> bool" where
  "is_json (Recv_json m) = True"
| "is_json r = False"

text \<open>The messages decoded by the \<open>n\<close> receives from the \<open>i\<close>-th on, and those of them kept.\<close>

fun received :: "env \<Rightarrow> nat \<Rightarrow> nat \<Rightarrow> json list" where
  "received e i 0 = []"
| "received e i (Suc n) = decoded (inbox e i) @ received e (Suc i) n"

definition collected :: "env \<Rightarrow> nat \<Rightarrow> nat \<Rightarrow> json list" where
  "collected e i n = filter (\<lambda>m. \<not> filtered_out m) (received e i n)"

text \<open>Each of the \<open>n\<close> receives from the \<open>i\<close>-th on delivers a message that decodes.\<close>

fun all_json :: "env \<Rightarrow> nat \<Rightarrow> nat \<Rightarrow> bool" where
  "all_json e i 0 = True"
| "all_json e i (Suc n) = (is_json (inbox e i) \<and> all_json e (Suc i) n)"

text \<open>None of the \<open>n\<close> clock readings from the \<open>i\<close>-th on is past the deadline.\<close>

fun in_time :: "env \<Rightarrow> rat \<Rightarrow> rat \<Rightarrow> nat \<Rightarrow> nat \<Rightarrow> bool" where
  "in_time e start_time effective_timeout i 0 = True"
| "in_time e start_time effective_timeout i (Suc n) =
     (\<not> clock e i - start_time > effective_timeout
      \<and> in_time e start_time effective_timeout (Suc i) n)"

text \<open>
  None of the messages decoded by the \<open>n\<close> receives from the \<open>i\<close>-th on carries
  the method tag.
\<close>

definition none_tagged :: "env \<Rightarrow> string \<Rightarrow> nat \<Rightarrow> nat \<Rightarrow> bool" where
  "none_tagged e method i n \<longleftrightarrow>
     list_all (\<lambda>m. \<not> dict_tag_is m ''method'' method) (received e i n)"

text \<open>
  The two exceptions by which a deadline shows: the \<^verbatim>\<open>TimeoutError\<close> the client raises
  and the timeout of the socket, which the tests catch together.
\<close>

fun is_timeout :: "error \<Rightarrow> bool" where
  "is_timeout (TimeoutError s) = True"
| "is_timeout WebSocketTimeoutException = True"
| "is_timeout err = False"

text \<open>
  A receive that collects nothing: a message that is skipped, or the socket timing out.
\<close>

fun quiet :: "recv_outcome \<Rightarrow> bool" where
  "quiet (Recv_json m) = filtered_out m"
| "quiet (Recv_raises err) = (err = WebSocketTimeoutException)"
| "quiet Recv_not_json = False"

fun all_quiet :: "env \<Rightarrow> nat \<Rightarrow> nat \<Rightarrow> bool" where
  "all_quiet e i 0 = True"
| "all_quiet e i (Suc n) = (quiet (inbox e i) \<and> all_quiet e (Suc i) n)"


section \<open>Concrete runs\<close>

text \<open>Messages of the kinds the exchange sends.\<close>

definition heartbeat_msg :: json where
  "heartbeat_msg = JObj [(''channel'', JStr ''heartbeat'')]"

definition status_msg :: json where
  "status_msg = JObj [(''channel'', JStr ''status''), (''type'', JStr ''update'')]"

definition ticker_msg :: json where
  "ticker_msg =
     JObj [(''channel'', JStr ''ticker''), (''type'', JStr ''update''), (''data'', JArr [])]"

definition subscribe_ack :: json where
  "subscribe_ack =
     JObj [(''method'', JStr ''subscribe''), (''success'', JBool True),
           (''result'', JObj [(''channel'', JStr ''ticker'')])]"

definition subscribe_rejected :: json where
  "subscribe_rejected =
     JObj [(''method'', JStr ''subscribe''), (''success'', JBool False),
           (''error'', JStr ''Currency pair not supported XYZ/USD'')]"

definition unsubscribe_rejected :: json where
  "unsubscribe_rejected =
     JObj [(''method'', JStr ''unsubscribe''), (''success'', JBool False),
           (''error'', JStr ''Subscription Not Found'')]"

text \<open>
  An environment that delivers the listed outcomes in order and lets the socket time out
  afterwards, with the given clock; no send and no connection attempt raises.
\<close>

definition env_of :: "(nat \<Rightarrow> rat) \<Rightarrow> recv_outcome list \<Rightarrow> env" where
  "env_of c outcomes =
     \<lparr>clock = c,
      inbox = (\<lambda>i. if i < length outcomes then outcomes ! i
                    else Recv_raises WebSocketTimeoutException),
      send_raises = (\<lambda>i. None),
      connect_raises = (\<lambda>i. None),
      py_repr = (\<lambda>v. [])\<rparr>"

text \<open>A clock that advances one second with each reading.\<close>

definition seconds :: "nat \<Rightarrow> rat" where
  "seconds i = of_nat i"

text \<open>A clock that stands still for two readings and is 31 seconds on from the third.\<close>

definition late_clock :: "nat \<Rightarrow> rat" where
  "late_clock i = (if i < 2 then 0 else 31)"

text \<open>A session connected with the timeout of 30 seconds.\<close>

definition connected_state :: state where
  "connected_state = (init ''wss://ws.kraken.com/v2'' 30)\<lparr>ws := Some \<lparr>sock_timeout = Some 30\<rparr>\<rparr>"

definition noisy_env :: env where
  "noisy_env =
     env_of seconds
       [Recv_json heartbeat_msg, Recv_json subscribe_ack, Recv_json status_msg,
        Recv_json ticker_msg]"

definition late_env :: env where
  "late_env = env_of late_clock [Recv_json ticker_msg, Recv_json ticker_msg]"

definition partial_env :: env where
  "partial_env = env_of seconds [Recv_json heartbeat_msg, Recv_json ticker_msg]"

definition silent_env :: env where
  "silent_env = env_of seconds [Recv_json heartbeat_msg]"

definition garbled_env :: env where
  "garbled_env = env_of seconds [Recv_json ticker_msg, Recv_not_json]"

definition garbage_env :: env where
  "garbage_env = env_of seconds [Recv_not_json]"

definition rejecting_env :: env where
  "rejecting_env = env_of seconds [Recv_json heartbeat_msg, Recv_json subscribe_rejected]"


definition unsubscribe_rejecting_env :: env where
  "unsubscribe_rejecting_env = env_of seconds [Recv_json unsubscribe_rejected]"

text \<open>One level on each side of a book.\<close>

definition example_asks :: "json list" where
  "example_asks = [JObj [(''price'', JInt 101), (''qty'', JStr ''0.5'')]]"

definition example_bids :: "json list" where
  "example_bids = [JObj [(''price'', JInt 100), (''qty'', JStr ''1.5'')]]"

section \<open>Single steps\<close>

lemma receive_message_connected:
  "ws st = Some w \<Longrightarrow>
   receive_message e (Some x) st =
     (case inbox e (recvs st) of
        Recv_raises err \<Rightarrow> Inl err
      | Recv_not_json \<Rightarrow> Inl JSONDecodeError
      | Recv_json m \<Rightarrow> Inr m, st\<lparr>recvs := Suc (recvs st)\<rparr>)"
  by (simp add: receive_message_def settimeout_def Let_def)

lemma advance_0: "advance 0 st = st"
  by (simp add: advance_def)

lemma advance_Suc:
  "advance n (st\<lparr>ticks := Suc (ticks st), recvs := Suc (recvs st)\<rparr>) = advance (Suc n) st"
  by (simp add: advance_def)

lemma advance_1: "st\<lparr>ticks := Suc (ticks st), recvs := Suc (recvs st)\<rparr> = advance 1 st"
  by (simp add: advance_def)

lemma advance_fields:
  "ws (advance n st) = ws st" "ticks (advance n st) = ticks st + n"
  "recvs (advance n st) = recvs st + n" "timeout (advance n st) = timeout st"
  "sent (advance n st) = sent st" "sends (advance n st) = sends st"
  by (simp_all add: advance_def)

lemma collected_0: "collected e i 0 = []"
  by (simp add: collected_def)

lemma collected_Suc_json:
  "inbox e i = Recv_json m \<Longrightarrow>
   collected e i (Suc n) = (if filtered_out m then [] else [m]) @ collected e (Suc i) n"
  by (simp add: collected_def)

lemma all_json_iff: "all_json e i n \<longleftrightarrow> (\<forall>j<n. is_json (inbox e (i + j)))"
proof (induction n arbitrary: i)
  case 0
  show ?case by simp
next
  case (Suc n)
  show ?case
    by (simp add: Suc.IH) (metis add_Suc_right add_Suc less_Suc_eq_0_disj add.right_neutral)
qed

lemma in_time_iff: "in_time e s t i n \<longleftrightarrow> (\<forall>j<n. \<not> clock e (i + j) - s > t)"
proof (induction n arbitrary: i)
  case 0
  show ?case by simp
next
  case (Suc n)
  show ?case
    by (simp add: Suc.IH) (metis add_Suc_right add_Suc less_Suc_eq_0_disj add.right_neutral)
qed

lemma all_quiet_iff: "all_quiet e i n \<longleftrightarrow> (\<forall>j<n. quiet (inbox e (i + j)))"
proof (induction n arbitrary: i)
  case 0
  show ?case by simp
next
  case (Suc n)
  show ?case
    by (simp add: Suc.IH) (metis add_Suc_right add_Suc less_Suc_eq_0_disj add.right_neutral)
qed

text \<open>The ways one iteration of the receive loop ends or goes on.\<close>

lemma receive_loop_done:
  "\<not> int (length msgs) < count \<Longrightarrow> receive_loop e count s t msgs st = Some (Inr msgs, st)"
  by (subst receive_loop.simps) simp

lemma receive_loop_deadline:
  assumes "int (length msgs) < count" and "clock e (ticks st) - s > t"
  shows "receive_loop e count s t msgs st =
         Some (Inl (TimeoutError (''Timeout receiving messages. Got ''
                 @ str_int (int (length msgs)) @ ''/'' @ str_int count)),
               st\<lparr>ticks := Suc (ticks st)\<rparr>)"
  using assms by (subst receive_loop.simps) (simp add: time_time_def Let_def)

lemma receive_loop_json:
  assumes "ws st = Some w" and "int (length msgs) < count"
    and "\<not> clock e (ticks st) - s > t" and "inbox e (recvs st) = Recv_json m"
  shows "receive_loop e count s t msgs st =
         receive_loop e count s t (msgs @ (if filtered_out m then [] else [m]))
           (st\<lparr>ticks := Suc (ticks st), recvs := Suc (recvs st)\<rparr>)"
  using assms
  by (subst receive_loop.simps)
     (simp add: time_time_def receive_message_connected Let_def filtered_out_def)

lemma receive_loop_raises:
  assumes "ws st = Some w" and "int (length msgs) < count"
    and "\<not> clock e (ticks st) - s > t" and "inbox e (recvs st) = Recv_raises err"
  shows "receive_loop e count s t msgs st =
         Some (if msgs \<noteq> [] then Inr msgs else Inl err, advance 1 st)"
  using assms
  by (subst receive_loop.simps)
     (simp add: time_time_def receive_message_connected Let_def advance_def)

lemma receive_loop_not_json:
  assumes "ws st = Some w" and "int (length msgs) < count"
    and "\<not> clock e (ticks st) - s > t" and "inbox e (recvs st) = Recv_not_json"
  shows "receive_loop e count s t msgs st =
         Some (if msgs \<noteq> [] then Inr msgs else Inl JSONDecodeError, advance 1 st)"
  using assms
  by (subst receive_loop.simps)
     (simp add: time_time_def receive_message_connected Let_def advance_def)

text \<open>The ways one iteration of the wait loop ends or goes on.\<close>

lemma wait_loop_deadline:
  assumes "clock e (ticks st) - s > t"
  shows "wait_loop e meth s t st =
         Some (Inl (TimeoutError (''Timeout waiting for method: '' @ meth)),
               st\<lparr>ticks := Suc (ticks st)\<rparr>)"
  using assms by (subst wait_loop.simps) (simp add: time_time_def Let_def)

lemma wait_loop_json:
  assumes "ws st = Some w" and "\<not> clock e (ticks st) - s > t"
    and "inbox e (recvs st) = Recv_json m"
  shows "wait_loop e meth s t st =
         (if dict_tag_is m ''method'' meth then Some (Inr m, advance 1 st)
          else wait_loop e meth s t (advance 1 st))"
  using assms
  by (subst wait_loop.simps)
     (simp add: time_time_def receive_message_connected Let_def advance_def)

lemma wait_loop_raises:
  assumes "ws st = Some w" and "\<not> clock e (ticks st) - s > t"
    and "inbox e (recvs st) = Recv_raises err"
  shows "wait_loop e meth s t st = Some (Inl err, advance 1 st)"
  using assms
  by (subst wait_loop.simps)
     (simp add: time_time_def receive_message_connected Let_def advance_def)

lemma wait_loop_not_json:
  assumes "ws st = Some w" and "\<not> clock e (ticks st) - s > t"
    and "inbox e (recvs st) = Recv_not_json"
  shows "wait_loop e meth s t st = Some (Inl JSONDecodeError, advance 1 st)"
  using assms
  by (subst wait_loop.simps)
     (simp add: time_time_def receive_message_connected Let_def advance_def)

section \<open>Runs of several iterations\<close>

lemma receive_loop_skip:
  assumes "ws st = Some w"
    and "all_json e (recvs st) n"
    and "in_time e s t (ticks st) n"
    and "int (length msgs) + int (length (collected e (recvs st) n)) < count"
  shows "receive_loop e count s t msgs st =
         receive_loop e count s t (msgs @ collected e (recvs st) n) (advance n st)"
  using assms
proof (induction n arbitrary: st msgs)
  case 0
  then show ?case by (simp add: collected_0 advance_0)
next
  case (Suc n)
  from Suc.prems(2) obtain m where m: "inbox e (recvs st) = Recv_json m"
    by (cases "inbox e (recvs st)") auto
  let ?st = "st\<lparr>ticks := Suc (ticks st), recvs := Suc (recvs st)\<rparr>"
  let ?msgs = "msgs @ (if filtered_out m then [] else [m])"
  have len: "int (length msgs) < count"
    using Suc.prems(4) by linarith
  have now: "\<not> clock e (ticks st) - s > t" and later: "in_time e s t (ticks ?st) n"
    using Suc.prems(3) by simp_all
  have step: "receive_loop e count s t msgs st = receive_loop e count s t ?msgs ?st"
    by (rule receive_loop_json [OF Suc.prems(1) len now m])
  have "receive_loop e count s t ?msgs ?st =
        receive_loop e count s t (?msgs @ collected e (recvs ?st) n) (advance n ?st)"
  proof (rule Suc.IH)
    show "ws ?st = Some w" using Suc.prems(1) by simp
    show "all_json e (recvs ?st) n"
      using Suc.prems(2) by simp
    show "in_time e s t (ticks ?st) n" by (rule later)
    show "int (length ?msgs) + int (length (collected e (recvs ?st) n)) < count"
      using Suc.prems(4) by (simp add: collected_Suc_json [OF m])
  qed
  with step show ?case
    by (simp add: collected_Suc_json [OF m] advance_Suc)
qed

lemma none_tagged_Suc:
  "inbox e i = Recv_json m \<Longrightarrow>
   none_tagged e meth i (Suc n) \<longleftrightarrow>
     \<not> dict_tag_is m ''method'' meth \<and> none_tagged e meth (Suc i) n"
  by (simp add: none_tagged_def)

lemma wait_loop_skip:
  assumes "ws st = Some w"
    and "all_json e (recvs st) n"
    and "in_time e s t (ticks st) n"
    and "none_tagged e meth (recvs st) n"
  shows "wait_loop e meth s t st = wait_loop e meth s t (advance n st)"
  using assms
proof (induction n arbitrary: st)
  case 0
  then show ?case by (simp add: advance_0)
next
  case (Suc n)
  from Suc.prems(2) obtain m where m: "inbox e (recvs st) = Recv_json m"
    by (cases "inbox e (recvs st)") auto
  let ?st = "st\<lparr>ticks := Suc (ticks st), recvs := Suc (recvs st)\<rparr>"
  have now: "\<not> clock e (ticks st) - s > t" and later: "in_time e s t (ticks ?st) n"
    using Suc.prems(3) by simp_all
  have untagged: "\<not> dict_tag_is m ''method'' meth"
    and rest: "none_tagged e meth (recvs ?st) n"
    using Suc.prems(4) by (simp_all add: none_tagged_Suc [OF m])
  have "wait_loop e meth s t st = wait_loop e meth s t ?st"
    using wait_loop_json [OF Suc.prems(1) now m, of meth] untagged
    by (simp add: advance_1)
  also have "\<dots> = wait_loop e meth s t (advance n ?st)"
  proof (rule Suc.IH)
    show "ws ?st = Some w" using Suc.prems(1) by simp
    show "all_json e (recvs ?st) n" using Suc.prems(2) by simp
    show "in_time e s t (ticks ?st) n" by (rule later)
    show "none_tagged e meth (recvs ?st) n" by (rule rest)
  qed
  finally show ?case by (simp add: advance_Suc)
qed

text \<open>
  The wait loop on a run of \<open>n\<close> untagged messages followed by a tagged one, all within
  the deadline: the tagged message is returned.
\<close>

lemma wait_loop_finds:
  assumes "ws st = Some w"
    and "all_json e (recvs st) n"
    and "none_tagged e meth (recvs st) n"
    and "in_time e s t (ticks st) (Suc n)"
    and "inbox e (recvs st + n) = Recv_json ack"
    and "dict_tag_is ack ''method'' meth"
  shows "wait_loop e meth s t st = Some (Inr ack, advance (Suc n) st)"
proof -
  have split: "in_time e s t (ticks st) n" "\<not> clock e (ticks st + n) - s > t"
    using assms(4) by (simp_all only: in_time_iff) auto
  have "wait_loop e meth s t st = wait_loop e meth s t (advance n st)"
    by (rule wait_loop_skip [OF assms(1) assms(2) split(1) assms(3)])
  also have "\<dots> = Some (Inr ack, advance 1 (advance n st))"
    using wait_loop_json [where st = "advance n st" and w = w and e = e and s = s and t = t
        and m = ack and meth = meth] assms(1,5,6) split(2)
    by (simp add: advance_fields)
  finally show ?thesis by (simp add: advance_def)
qed



text \<open>Whatever the receive loop returns holds no filtered message beyond those it began with.\<close>

lemma receive_loop_kept_result:
  assumes "receive_loop e count s t msgs st = Some y"
  shows "(\<forall>m \<in> set msgs. \<not> filtered_out m) \<longrightarrow>
         (case fst y of Inl err \<Rightarrow> True | Inr out \<Rightarrow> \<forall>m \<in> set out. \<not> filtered_out m)"
proof (rule receive_loop.raw_induct
        [where P = "\<lambda>e count s t msgs st y. (\<forall>m \<in> set msgs. \<not> filtered_out m) \<longrightarrow>
           (case fst y of Inl err \<Rightarrow> True | Inr out \<Rightarrow> \<forall>m \<in> set out. \<not> filtered_out m)",
         OF _ assms], goal_cases)
  case (1 f e count s t msgs st y)
  from 1(2) show ?case
    by (auto simp: Let_def filtered_out_def split: if_splits sum.splits dest!: 1(1))
qed

lemma receive_loop_kept:
  "receive_loop e count s t msgs st = Some (Inr out, st') \<Longrightarrow>
   \<forall>m \<in> set msgs. \<not> filtered_out m \<Longrightarrow> \<forall>m \<in> set out. \<not> filtered_out m"
  using receive_loop_kept_result [of e count s t msgs st "(Inr out, st')"] by simp

section \<open>The checksum\<close>

lemma mask32: "(mask 32 :: int) = 0xFFFFFFFF"
  by (simp add: mask_eq_exp_minus_1)

lemma uint_and_mask32: "uint (w :: 32 word) AND 0xFFFFFFFF = uint w"
proof -
  have "0 \<le> uint w" and "uint w < 2 ^ 32"
    using uint_bounded [of w] by simp_all
  then have "take_bit 32 (uint w) = uint w"
    by (simp add: take_bit_int_eq_self)
  then show ?thesis
    by (simp add: take_bit_eq_mask mask32)
qed

lemma level_parts_level:
  "is_level l \<Longrightarrow> \<exists>ps. level_parts e l = Inr ps \<and> concat ps = level_text e l"
  by (auto simp: is_level_def level_parts_def level_text_def split: sum.splits)

lemma interleaved_drop_both:
  assumes "i < length asks" and "i < length bids"
  shows "interleaved e (drop i asks) (drop i bids) =
         level_text e (asks ! i) @ level_text e (bids ! i)
           @ interleaved e (drop (Suc i) asks) (drop (Suc i) bids)"
  using assms by (simp flip: Cons_nth_drop_Suc)

lemma interleaved_drop_asks:
  assumes "i < length asks"
  shows "interleaved e (drop i asks) [] =
         level_text e (asks ! i) @ interleaved e (drop (Suc i) asks) []"
  using assms by (simp flip: Cons_nth_drop_Suc)

lemma interleaved_drop_bids:
  assumes "i < length bids"
  shows "interleaved e [] (drop i bids) =
         level_text e (bids ! i) @ interleaved e [] (drop (Suc i) bids)"
  using assms by (simp flip: Cons_nth_drop_Suc)

lemma checksum_loop_levels:
  assumes "\<forall>l \<in> set asks. is_level l" and "\<forall>l \<in> set bids. is_level l"
    and "n = max (length asks) (length bids)"
  shows "\<exists>ps. checksum_loop e asks bids i n parts = Inr ps
           \<and> concat ps = concat parts @ interleaved e (drop i asks) (drop i bids)"
proof (induction "n - i" arbitrary: i parts)
  case 0
  then have "\<not> i < n" by simp
  then show ?case
    using assms(3) by (subst checksum_loop.simps) simp
next
  case (Suc k)
  then have lt: "i < n" and k: "k = n - Suc i" by simp_all
  show ?case
  proof (cases "i < length asks")
    case a: True
    then obtain pa where pa: "level_parts e (asks ! i) = Inr pa"
      "concat pa = level_text e (asks ! i)"
      using assms(1) level_parts_level [of "asks ! i" e] by auto
    show ?thesis
    proof (cases "i < length bids")
      case b: True
      then obtain pb where pb: "level_parts e (bids ! i) = Inr pb"
        "concat pb = level_text e (bids ! i)"
        using assms(2) level_parts_level [of "bids ! i" e] by auto
      from Suc.hyps(1) [OF k, of "(parts @ pa) @ pb"] show ?thesis
        using lt a b pa pb
        by (subst checksum_loop.simps) (simp add: interleaved_drop_both)
    next
      case b: False
      from Suc.hyps(1) [OF k, of "parts @ pa"] show ?thesis
        using lt a b pa
        by (subst checksum_loop.simps) (simp add: interleaved_drop_asks)
    qed
  next
    case a: False
    with lt assms(3) have b: "i < length bids" by simp
    then obtain pb where pb: "level_parts e (bids ! i) = Inr pb"
      "concat pb = level_text e (bids ! i)"
      using assms(2) level_parts_level [of "bids ! i" e] by auto
    from Suc.hyps(1) [OF k, of "parts @ pb"] show ?thesis
      using lt a b pb
      by (subst checksum_loop.simps) (simp add: interleaved_drop_bids)
  qed
qed

lemma slice_to_nonneg: "0 \<le> depth \<Longrightarrow> slice_to depth xs = take (nat depth) xs"
  by (simp add: slice_to_def)

lemma calculate_book_checksum_levels:
  assumes "\<forall>l \<in> set (slice_to depth asks). is_level l"
    and "\<forall>l \<in> set (slice_to depth bids). is_level l"
  shows "calculate_book_checksum e bids asks depth =
         Inr (uint (zlib_crc32 (interleaved e (slice_to depth asks) (slice_to depth bids))))"
proof -
  let ?a = "slice_to depth asks" and ?b = "slice_to depth bids"
  obtain ps where ps: "checksum_loop e ?a ?b 0 (max (length ?a) (length ?b)) [] = Inr ps"
    "concat ps = interleaved e ?a ?b"
    using checksum_loop_levels [OF assms(1) assms(2) refl, of e 0 "[]"] by auto
  show ?thesis
    unfolding calculate_book_checksum_def Let_def ps sum.case
    by (simp only: uint_and_mask32)
qed

lemma calculate_book_checksum_range:
  "calculate_book_checksum e bids asks depth = Inr c \<Longrightarrow> 0 \<le> c \<and> c < 2 ^ 32"
  using uint_bounded [where 'a = 32]
  by (auto simp: calculate_book_checksum_def Let_def uint_and_mask32 split: sum.splits)

lemma funpow_8: "(f ^^ 8) x = f (f (f (f (f (f (f (f x)))))))"
  by (simp add: numeral_eq_Suc)

section \<open>Whole calls\<close>

text \<open>
  The receive loop with nothing collected, on receives that collect nothing, once the
  clock is past the deadline at the \<open>n\<close>-th reading from now at the latest.
\<close>

lemma receive_loop_quiet:
  assumes "ws st = Some w" and "0 < count"
    and "all_quiet e (recvs st) n"
    and "clock e (ticks st + n) - s > t"
  shows "\<exists>err st'. receive_loop e count s t [] st = Some (Inl err, st') \<and> is_timeout err"
  using assms
proof (induction n arbitrary: st)
  case 0
  then show ?case
    using receive_loop_deadline [where msgs = "[]" and count = count and e = e and st = st
        and s = s and t = t] by simp
next
  case (Suc n)
  let ?st = "st\<lparr>ticks := Suc (ticks st), recvs := Suc (recvs st)\<rparr>"
  show ?case
  proof (cases "clock e (ticks st) - s > t")
    case True
    then show ?thesis
      using receive_loop_deadline [where msgs = "[]" and count = count and e = e and st = st
        and s = s and t = t] Suc.prems(2) by simp
  next
    case False
    have len: "int (length ([] :: json list)) < count"
      using Suc.prems(2) by simp
    show ?thesis
    proof (cases "inbox e (recvs st)")
      case (Recv_raises err)
      with Suc.prems(3) have "err = WebSocketTimeoutException" by simp
      then show ?thesis
        using receive_loop_raises [OF Suc.prems(1) len False Recv_raises] by simp
    next
      case Recv_not_json
      with Suc.prems(3) show ?thesis by simp
    next
      case (Recv_json m)
      with Suc.prems(3) have skipped: "filtered_out m" by simp
      have "receive_loop e count s t [] st = receive_loop e count s t [] ?st"
        using receive_loop_json [OF Suc.prems(1) len False Recv_json] skipped by simp
      moreover have "\<exists>err st'. receive_loop e count s t [] ?st = Some (Inl err, st')
                       \<and> is_timeout err"
      proof (rule Suc.IH)
        show "ws ?st = Some w" using Suc.prems(1) by simp
        show "0 < count" by (rule Suc.prems(2))
        show "all_quiet e (recvs ?st) n" using Suc.prems(3) by simp
        show "clock e (ticks ?st + n) - s > t" using Suc.prems(4) by simp
      qed
      ultimately show ?thesis by simp
    qed
  qed
qed

text \<open>
  The receive loop on \<open>n\<close> messages that decode, all within the deadline and fewer kept
  than asked for, followed by a receive that raises.
\<close>

lemma receive_loop_then_raises:
  assumes "ws st = Some w"
    and "all_json e (recvs st) n"
    and "in_time e s t (ticks st) (Suc n)"
    and "int (length msgs) + int (length (collected e (recvs st) n)) < count"
    and "inbox e (recvs st + n) = Recv_raises err"
  shows "receive_loop e count s t msgs st =
         Some (if msgs @ collected e (recvs st) n \<noteq> []
               then Inr (msgs @ collected e (recvs st) n) else Inl err,
               advance (Suc n) st)"
proof -
  have split: "in_time e s t (ticks st) n" "\<not> clock e (ticks st + n) - s > t"
    using assms(3) by (simp_all only: in_time_iff) auto
  let ?msgs = "msgs @ collected e (recvs st) n"
  have "receive_loop e count s t msgs st = receive_loop e count s t ?msgs (advance n st)"
    by (rule receive_loop_skip [OF assms(1) assms(2) split(1) assms(4)])
  also have "\<dots> = Some (if ?msgs \<noteq> [] then Inr ?msgs else Inl err,
                        advance 1 (advance n st))"
  proof (rule receive_loop_raises)
    show "ws (advance n st) = Some w" using assms(1) by (simp add: advance_fields)
    show "int (length ?msgs) < count" using assms(4) by simp
    show "\<not> clock e (ticks (advance n st)) - s > t"
      using split(2) by (simp add: advance_fields)
    show "inbox e (recvs (advance n st)) = Recv_raises err"
      using assms(5) by (simp add: advance_fields)
  qed
  finally show ?thesis by (simp add: advance_def)
qed

lemma receive_loop_then_not_json:
  assumes "ws st = Some w"
    and "all_json e (recvs st) n"
    and "in_time e s t (ticks st) (Suc n)"
    and "int (length msgs) + int (length (collected e (recvs st) n)) < count"
    and "inbox e (recvs st + n) = Recv_not_json"
  shows "receive_loop e count s t msgs st =
         Some (if msgs @ collected e (recvs st) n \<noteq> []
               then Inr (msgs @ collected e (recvs st) n) else Inl JSONDecodeError,
               advance (Suc n) st)"
proof -
  have split: "in_time e s t (ticks st) n" "\<not> clock e (ticks st + n) - s > t"
    using assms(3) by (simp_all only: in_time_iff) auto
  let ?msgs = "msgs @ collected e (recvs st) n"
  have "receive_loop e count s t msgs st = receive_loop e count s t ?msgs (advance n st)"
    by (rule receive_loop_skip [OF assms(1) assms(2) split(1) assms(4)])
  also have "\<dots> = Some (if ?msgs \<noteq> [] then Inr ?msgs else Inl JSONDecodeError,
                        advance 1 (advance n st))"
  proof (rule receive_loop_not_json)
    show "ws (advance n st) = Some w" using assms(1) by (simp add: advance_fields)
    show "int (length ?msgs) < count" using assms(4) by simp
    show "\<not> clock e (ticks (advance n st)) - s > t"
      using split(2) by (simp add: advance_fields)
    show "inbox e (recvs (advance n st)) = Recv_not_json"
      using assms(5) by (simp add: advance_fields)
  qed
  finally show ?thesis by (simp add: advance_def)
qed

lemma wait_loop_then_not_json:
  assumes "ws st = Some w"
    and "all_json e (recvs st) n"
    and "none_tagged e meth (recvs st) n"
    and "in_time e s t (ticks st) (Suc n)"
    and "inbox e (recvs st + n) = Recv_not_json"
  shows "wait_loop e meth s t st = Some (Inl JSONDecodeError, advance (Suc n) st)"
proof -
  have split: "in_time e s t (ticks st) n" "\<not> clock e (ticks st + n) - s > t"
    using assms(4) by (simp_all only: in_time_iff) auto
  have "wait_loop e meth s t st = wait_loop e meth s t (advance n st)"
    by (rule wait_loop_skip [OF assms(1) assms(2) split(1) assms(3)])
  also have "\<dots> = Some (Inl JSONDecodeError, advance 1 (advance n st))"
  proof (rule wait_loop_not_json)
    show "ws (advance n st) = Some w" using assms(1) by (simp add: advance_fields)
    show "\<not> clock e (ticks (advance n st)) - s > t"
      using split(2) by (simp add: advance_fields)
    show "inbox e (recvs (advance n st)) = Recv_not_json"
      using assms(5) by (simp add: advance_fields)
  qed
  finally show ?thesis by (simp add: advance_def)
qed

text \<open>The state in which \<^verbatim>\<open>_wait_for_method\<close> and \<^verbatim>\<open>receive_messages\<close> enter their loops.\<close>

lemma wait_for_method_loop:
  "wait_for_method e meth t st =
   wait_loop e meth (clock e (ticks st)) (effective t st) (st\<lparr>ticks := Suc (ticks st)\<rparr>)"
  by (simp add: wait_for_method_def time_time_def Let_def)

lemma receive_messages_loop:
  "receive_messages e count t st =
   receive_loop e count (clock e (ticks st)) (effective t st) [] (st\<lparr>ticks := Suc (ticks st)\<rparr>)"
  by (simp add: receive_messages_def time_time_def Let_def)

section \<open>Evaluating the concrete runs\<close>

lemmas run_defs =
  env_of_def connected_state_def init_def seconds_def late_clock_def
  time_time_def receive_message_def settimeout_def ws_send_def Let_def effective_def
  heartbeat_msg_def status_msg_def subscribe_ack_def ticker_msg_def
  subscribe_rejected_def unsubscribe_rejected_def
  dict_tag_is_def dict_tag_in_def filtered_out_def advance_def

lemma connected_state_ws: "ws connected_state = Some \<lparr>sock_timeout = Some 30\<rparr>"
  by (simp add: connected_state_def init_def)

lemma str_nat_digit: "n < 10 \<Longrightarrow> str_nat n = [digit_char n]"
  by (simp add: str_nat.simps)

lemma noisy_run:
  "receive_messages noisy_env 1 (Some 30) connected_state =
   Some (Inr [ticker_msg], advance 4 (connected_state\<lparr>ticks := 1\<rparr>))"
  apply (simp add: receive_messages_loop effective_def)
  apply (subst receive_loop.simps, simp add: noisy_env_def run_defs)
  apply (subst receive_loop.simps, simp add: noisy_env_def run_defs)
  apply (subst receive_loop.simps, simp add: noisy_env_def run_defs)
  apply (subst receive_loop.simps, simp add: noisy_env_def run_defs)
  apply (subst receive_loop.simps, simp add: noisy_env_def run_defs)
  done

lemma late_run:
  "receive_messages late_env 2 (Some 30) connected_state =
   Some (Inl (TimeoutError ''Timeout receiving messages. Got 1/2''),
         connected_state\<lparr>ticks := 3, recvs := 1\<rparr>)"
  apply (simp add: receive_messages_loop effective_def)
  apply (subst receive_loop.simps, simp add: late_env_def run_defs)
  apply (subst receive_loop.simps, simp add: late_env_def run_defs str_int_def str_nat_digit digit_char_def)
  done

lemma garbled_run:
  "receive_messages garbled_env 2 (Some 30) connected_state =
   Some (Inr [ticker_msg], connected_state\<lparr>ticks := 3, recvs := 2\<rparr>)"
  apply (simp add: receive_messages_loop effective_def)
  apply (subst receive_loop.simps, simp add: garbled_env_def run_defs)
  apply (subst receive_loop.simps, simp add: garbled_env_def run_defs)
  done

section \<open>Subscribing and unsubscribing on a connected session\<close>

text \<open>The state in which the acknowledgment is awaited, once the request is sent.\<close>

lemma subscribe_sent:
  assumes "ws st = Some w" and "send_raises e (sends st) = None"
  shows "subscribe e channel symbol options st =
         (case wait_for_method e ''subscribe'' None
                 (st\<lparr>sends := Suc (sends st),
                     sent := sent st @ [request_of ''subscribe'' channel symbol options]\<rparr>) of
            None \<Rightarrow> None
          | Some (Inl err, st2) \<Rightarrow> Some (Inl err, st2)
          | Some (Inr ack, st2) \<Rightarrow>
              (case dict_get ack ''success'' JNull of
                 Inl err \<Rightarrow> Some (Inl err, st2)
               | Inr success \<Rightarrow>
                   if \<not> truthy success then
                     (case dict_get ack ''error'' (JStr ''Unknown error'') of
                        Inl err \<Rightarrow> Some (Inl err, st2)
                      | Inr err_detail \<Rightarrow>
                          Some (Inl (ValueError
                            (''Subscription failed: '' @ py_str e err_detail)), st2))
                   else Some (Inr ack, st2)))"
  using assms by (simp add: subscribe_def ws_send_def)

lemma unsubscribe_sent:
  assumes "ws st = Some w" and "send_raises e (sends st) = None"
  shows "unsubscribe e channel symbol options st =
         wait_for_method e ''unsubscribe'' None
           (st\<lparr>sends := Suc (sends st),
               sent := sent st @ [request_of ''unsubscribe'' channel symbol options]\<rparr>)"
  using assms by (simp add: unsubscribe_def ws_send_def)

text \<open>
  Waiting on a connected session whose next \<open>n\<close> messages are untagged and within the
  deadline, whatever has been sent before.
\<close>

lemma wait_for_method_finds:
  assumes "ws st = Some w"
    and "all_json e (recvs st) n"
    and "none_tagged e meth (recvs st) n"
    and "in_time e (clock e (ticks st)) (effective t st) (Suc (ticks st)) (Suc n)"
    and "inbox e (recvs st + n) = Recv_json ack"
    and "dict_tag_is ack ''method'' meth"
  shows "wait_for_method e meth t st =
         Some (Inr ack, advance (Suc n) (st\<lparr>ticks := Suc (ticks st)\<rparr>))"
  unfolding wait_for_method_loop
proof (rule wait_loop_finds)
  let ?st = "st\<lparr>ticks := Suc (ticks st)\<rparr>"
  show "ws ?st = Some w" using assms(1) by simp
  show "all_json e (recvs ?st) n" using assms(2) by simp
  show "none_tagged e meth (recvs ?st) n" using assms(3) by simp
  show "in_time e (clock e (ticks st)) (effective t st) (ticks ?st) (Suc n)"
    using assms(4) by simp
  show "inbox e (recvs ?st + n) = Recv_json ack" using assms(5) by simp
  show "dict_tag_is ack ''method'' meth" by (rule assms(6))
qed

lemma wait_for_method_not_json:
  assumes "ws st = Some w"
    and "all_json e (recvs st) n"
    and "none_tagged e meth (recvs st) n"
    and "in_time e (clock e (ticks st)) (effective t st) (Suc (ticks st)) (Suc n)"
    and "inbox e (recvs st + n) = Recv_not_json"
  shows "wait_for_method e meth t st =
         Some (Inl JSONDecodeError, advance (Suc n) (st\<lparr>ticks := Suc (ticks st)\<rparr>))"
  unfolding wait_for_method_loop
proof (rule wait_loop_then_not_json)
  let ?st = "st\<lparr>ticks := Suc (ticks st)\<rparr>"
  show "ws ?st = Some w" using assms(1) by simp
  show "all_json e (recvs ?st) n" using assms(2) by simp
  show "none_tagged e meth (recvs ?st) n" using assms(3) by simp
  show "in_time e (clock e (ticks st)) (effective t st) (ticks ?st) (Suc n)"
    using assms(4) by simp
  show "inbox e (recvs ?st + n) = Recv_not_json" using assms(5) by simp
qed



lemma receive_message_not_json:
  assumes "ws st = Some w" and "inbox e (recvs st) = Recv_not_json"
  shows "fst (receive_message e t st) = Inl JSONDecodeError"
  using assms
  by (cases t) (simp_all add: receive_message_def settimeout_def Let_def)

section \<open>The claims\<close>

text \<open>
  C9. A call of \<open>receive_message\<close> with a timeout override on a connected session leaves the
  timeout setting of the connection as it found it, whatever the receive does: it returns
  a parsed message, it raises, or the text received is not JSON. The connection after
  the call is the connection before it.
\<close>

theorem receive_message_restores_timeout:
  assumes "ws st = Some w"
  shows "ws (snd (receive_message e (Some x) st)) = Some w
         \<and> (\<forall>w'. ws (snd (receive_message e (Some x) st)) = Some w'
               \<longrightarrow> sock_timeout w' = sock_timeout w)"
  using assms by (simp add: receive_message_connected)

theorem receive_message_restores_timeout_witness:
  "ws connected_state = Some \<lparr>sock_timeout = Some 30\<rparr>
   \<and> inbox garbage_env (recvs connected_state) = Recv_not_json
   \<and> ws (snd (receive_message garbage_env (Some 5) connected_state))
       = Some \<lparr>sock_timeout = Some 30\<rparr>"
proof -
  have c: "ws connected_state = Some \<lparr>sock_timeout = Some 30\<rparr>"
    by (simp add: connected_state_def init_def)
  have "inbox garbage_env (recvs connected_state) = Recv_not_json"
    by (simp add: garbage_env_def env_of_def connected_state_def init_def)
  with c receive_message_restores_timeout [OF c, of garbage_env 5] show ?thesis
    by simp
qed

text \<open>
  C10. On a session whose connection is absent, \<open>subscribe\<close>, \<open>unsubscribe\<close> and
  \<open>receive_message\<close> raise \<open>RuntimeError\<close> and leave the state as it is, so nothing is sent
  and nothing is received, and \<open>disconnect\<close> changes nothing. The connection is absent on
  a session never opened and after \<open>disconnect\<close>.
\<close>

theorem absent_connection:
  assumes "ws st = None"
  shows "subscribe e channel symbol options st
           = Some (Inl (RuntimeError ''Not connected. Call connect() first.''), st)
         \<and> unsubscribe e channel symbol options st
           = Some (Inl (RuntimeError ''Not connected. Call connect() first.''), st)
         \<and> receive_message e t st
           = (Inl (RuntimeError ''Not connected. Call connect() first.''), st)
         \<and> disconnect st = st
         \<and> ws (init u t0) = None
         \<and> ws (disconnect st0) = None"
  using assms
  by (simp add: subscribe_def unsubscribe_def receive_message_def disconnect_def init_def
        split: option.split)

theorem absent_connection_witness:
  "ws (disconnect connected_state) = None
   \<and> subscribe noisy_env ''ticker'' [''BTC/USD''] [] (disconnect connected_state)
       = Some (Inl (RuntimeError ''Not connected. Call connect() first.''),
               disconnect connected_state)
   \<and> sent (disconnect connected_state) = []
   \<and> recvs (disconnect connected_state) = 0"
proof -
  have a: "ws (disconnect connected_state) = None"
    by (simp add: disconnect_def connected_state_def init_def)
  have "sent (disconnect connected_state) = []" "recvs (disconnect connected_state) = 0"
    by (simp_all add: disconnect_def connected_state_def init_def)
  with a absent_connection [OF a, of noisy_env "''ticker''" "[''BTC/USD'']" "[]"]
  show ?thesis by simp
qed

text \<open>
  C4. Whatever \<open>receive_messages\<close> returns, for any inbound stream, any count and any
  timeout, holds no message with channel \<open>heartbeat\<close>, none with channel \<open>status\<close> and none
  whose method tag is \<open>subscribe\<close> or \<open>unsubscribe\<close>.
\<close>

theorem receive_messages_filters:
  assumes "receive_messages e count t st = Some (Inr msgs, st')"
  shows "\<forall>m \<in> set msgs.
           \<not> dict_tag_is m ''channel'' ''heartbeat''
           \<and> \<not> dict_tag_is m ''channel'' ''status''
           \<and> \<not> dict_tag_in m ''method'' [''subscribe'', ''unsubscribe'']"
proof -
  have "receive_loop e count (clock e (ticks st)) (effective t st) []
          (st\<lparr>ticks := Suc (ticks st)\<rparr>) = Some (Inr msgs, st')"
    using assms by (simp add: receive_messages_loop)
  then have "\<forall>m \<in> set msgs. \<not> filtered_out m"
    by (rule receive_loop_kept) simp
  then show ?thesis
    by (simp add: filtered_out_def)
qed

theorem receive_messages_filters_witness:
  "receive_messages noisy_env 1 (Some 30) connected_state =
     Some (Inr [ticker_msg], advance 4 (connected_state\<lparr>ticks := 1\<rparr>))
   \<and> inbox noisy_env 0 = Recv_json heartbeat_msg
   \<and> inbox noisy_env 1 = Recv_json subscribe_ack
   \<and> inbox noisy_env 2 = Recv_json status_msg
   \<and> \<not> dict_tag_is ticker_msg ''channel'' ''heartbeat''
   \<and> \<not> dict_tag_is ticker_msg ''channel'' ''status''
   \<and> \<not> dict_tag_in ticker_msg ''method'' [''subscribe'', ''unsubscribe'']"
  using receive_messages_filters [OF noisy_run] noisy_run
  by (simp add: noisy_env_def env_of_def)

text \<open>
  C5. A call of \<open>receive_messages\<close> for at least one message on a connected session, in
  which every receive up to the deadline collects nothing (it delivers a message that is
  skipped, or the socket times out) and the clock passes the deadline at some reading,
  returns, and what it returns is a timeout error: the \<open>TimeoutError\<close> of the deadline
  check or the timeout of the socket.
\<close>

theorem receive_messages_nothing_collected:
  assumes "ws st = Some w" and "0 < count"
    and "all_quiet e (recvs st) n"
    and "clock e (Suc (ticks st) + n) - clock e (ticks st) > effective t st"
  shows "\<exists>err st'. receive_messages e count t st = Some (Inl err, st') \<and> is_timeout err"
proof -
  let ?st = "st\<lparr>ticks := Suc (ticks st)\<rparr>"
  have "\<exists>err st'. receive_loop e count (clock e (ticks st)) (effective t st) [] ?st
                     = Some (Inl err, st') \<and> is_timeout err"
  proof (rule receive_loop_quiet)
    show "ws ?st = Some w" using assms(1) by simp
    show "0 < count" by (rule assms(2))
    show "all_quiet e (recvs ?st) n" using assms(3) by simp
    show "clock e (ticks ?st + n) - clock e (ticks st) > effective t st"
      using assms(4) by simp
  qed
  then show ?thesis
    by (simp add: receive_messages_loop)
qed

theorem receive_messages_nothing_collected_witness:
  "ws connected_state = Some \<lparr>sock_timeout = Some 30\<rparr> \<and> (0::int) < 3
   \<and> all_quiet silent_env (recvs connected_state) (Suc (Suc 0))
   \<and> clock silent_env (Suc (ticks connected_state) + Suc (Suc 0))
        - clock silent_env (ticks connected_state) > effective (Some 2) connected_state
   \<and> (\<exists>err st'. receive_messages silent_env 3 (Some 2) connected_state = Some (Inl err, st')
         \<and> is_timeout err)"
proof -
  have q: "all_quiet silent_env (recvs connected_state) (Suc (Suc 0))"
    by (simp add: silent_env_def run_defs)
  have c: "clock silent_env (Suc (ticks connected_state) + Suc (Suc 0))
             - clock silent_env (ticks connected_state) > effective (Some 2) connected_state"
    by (simp add: silent_env_def run_defs)
  have p: "(0::int) < 3" by simp
  from receive_messages_nothing_collected [OF connected_state_ws p q c]
  show ?thesis using q c connected_state_ws by simp
qed

text \<open>
  C3, as the claim states it, fails: with one message of two collected and the clock 31
  seconds on at the next deadline check, against a timeout of 30, the call raises
  \<open>TimeoutError\<close> and the collected message is lost.
\<close>

theorem receive_messages_partial_counterexample:
  "collected late_env (recvs connected_state) 1 = [ticker_msg]
   \<and> clock late_env 2 - clock late_env 0 > effective (Some 30) connected_state
   \<and> receive_messages late_env 2 (Some 30) connected_state =
       Some (Inl (TimeoutError ''Timeout receiving messages. Got 1/2''),
             connected_state\<lparr>ticks := 3, recvs := 1\<rparr>)"
  using late_run by (simp add: collected_def late_env_def run_defs)

text \<open>
  C3, amended. When, on a connected session, \<open>n\<close> receives deliver messages within the
  deadline, at least one of them and fewer than \<open>count\<close> are kept, and the next receive
  raises with the deadline not yet found passed (the socket times out, or any other
  exception), \<open>receive_messages\<close> returns exactly the kept messages, in order.
\<close>

theorem receive_messages_partial:
  assumes "ws st = Some w"
    and "all_json e (recvs st) n"
    and "in_time e (clock e (ticks st)) (effective t st) (Suc (ticks st)) (Suc n)"
    and "inbox e (recvs st + n) = Recv_raises err"
    and "0 < length (collected e (recvs st) n)"
    and "int (length (collected e (recvs st) n)) < count"
  shows "\<exists>st'. receive_messages e count t st = Some (Inr (collected e (recvs st) n), st')"
proof -
  let ?st = "st\<lparr>ticks := Suc (ticks st)\<rparr>"
  have "receive_loop e count (clock e (ticks st)) (effective t st) [] ?st =
        Some (if [] @ collected e (recvs ?st) n \<noteq> []
              then Inr ([] @ collected e (recvs ?st) n) else Inl err,
              advance (Suc n) ?st)"
  proof (rule receive_loop_then_raises)
    show "ws ?st = Some w" using assms(1) by simp
    show "all_json e (recvs ?st) n" using assms(2) by simp
    show "in_time e (clock e (ticks st)) (effective t st) (ticks ?st) (Suc n)"
      using assms(3) by simp
    show "int (length ([] :: json list)) + int (length (collected e (recvs ?st) n)) < count"
      using assms(6) by simp
    show "inbox e (recvs ?st + n) = Recv_raises err" using assms(4) by simp
  qed
  with assms(5) show ?thesis
    by (simp add: receive_messages_loop)
qed

theorem receive_messages_partial_witness:
  "ws connected_state = Some \<lparr>sock_timeout = Some 30\<rparr>
   \<and> all_json partial_env (recvs connected_state) (Suc (Suc 0))
   \<and> in_time partial_env (clock partial_env (ticks connected_state))
        (effective (Some 30) connected_state) (Suc (ticks connected_state)) (Suc (Suc (Suc 0)))
   \<and> inbox partial_env (recvs connected_state + Suc (Suc 0))
        = Recv_raises WebSocketTimeoutException
   \<and> collected partial_env (recvs connected_state) (Suc (Suc 0)) = [ticker_msg]
   \<and> (\<exists>st'. receive_messages partial_env 5 (Some 30) connected_state
               = Some (Inr [ticker_msg], st'))"
proof -
  have a: "all_json partial_env (recvs connected_state) (Suc (Suc 0))"
    by (simp add: partial_env_def run_defs)
  have b: "in_time partial_env (clock partial_env (ticks connected_state))
        (effective (Some 30) connected_state) (Suc (ticks connected_state)) (Suc (Suc (Suc 0)))"
    by (simp add: partial_env_def run_defs)
  have c: "inbox partial_env (recvs connected_state + Suc (Suc 0))
        = Recv_raises WebSocketTimeoutException"
    by (simp add: partial_env_def run_defs)
  have d: "collected partial_env (recvs connected_state) (Suc (Suc 0)) = [ticker_msg]"
    by (simp add: collected_def partial_env_def run_defs)
  have k: "0 < length (collected partial_env (recvs connected_state) (Suc (Suc 0)))"
    "int (length (collected partial_env (recvs connected_state) (Suc (Suc 0)))) < 5"
    by (simp_all add: d)
  from receive_messages_partial [OF connected_state_ws a b c k]
  show ?thesis using a b c d connected_state_ws by simp
qed

text \<open>
  C2. When the acknowledgment to a \<open>subscribe\<close> call arrives (the first message tagged
  with method \<open>subscribe\<close>, after \<open>n\<close> messages that are not, all within the deadline),
  a falsy success flag, \<open>false\<close> among them, makes the call raise \<open>ValueError\<close> with the
  text \<open>Subscription failed:\<close> followed by the printed error field of the acknowledgment
  (\<open>Unknown error\<close> when it has none), a string being printed as it is; a truthy success
  flag makes the call return the acknowledgment itself.
\<close>

theorem subscribe_acknowledged:
  assumes "ws st = Some w" and "send_raises e (sends st) = None"
    and "all_json e (recvs st) n"
    and "none_tagged e ''subscribe'' (recvs st) n"
    and "in_time e (clock e (ticks st)) (timeout st) (Suc (ticks st)) (Suc n)"
    and "inbox e (recvs st + n) = Recv_json ack"
    and "dict_tag_is ack ''method'' ''subscribe''"
    and "dict_get ack ''success'' JNull = Inr success"
    and "dict_get ack ''error'' (JStr ''Unknown error'') = Inr detail"
  shows "\<exists>st'. subscribe e channel symbol options st =
           Some (if truthy success then Inr ack
                 else Inl (ValueError (''Subscription failed: '' @ py_str e detail)), st')"
proof -
  let ?st = "st\<lparr>sends := Suc (sends st),
                 sent := sent st @ [request_of ''subscribe'' channel symbol options]\<rparr>"
  have "wait_for_method e ''subscribe'' None ?st =
        Some (Inr ack, advance (Suc n) (?st\<lparr>ticks := Suc (ticks ?st)\<rparr>))"
  proof (rule wait_for_method_finds)
    show "ws ?st = Some w" using assms(1) by simp
    show "all_json e (recvs ?st) n" using assms(3) by simp
    show "none_tagged e ''subscribe'' (recvs ?st) n" using assms(4) by simp
    show "in_time e (clock e (ticks ?st)) (effective None ?st) (Suc (ticks ?st)) (Suc n)"
      using assms(5) by (simp add: effective_def)
    show "inbox e (recvs ?st + n) = Recv_json ack" using assms(6) by simp
    show "dict_tag_is ack ''method'' ''subscribe''" by (rule assms(7))
  qed
  then have "subscribe e channel symbol options st =
      Some (if truthy success then Inr ack
            else Inl (ValueError (''Subscription failed: '' @ py_str e detail)),
            advance (Suc n) (?st\<lparr>ticks := Suc (ticks ?st)\<rparr>))"
    by (simp add: subscribe_sent [OF assms(1) assms(2)] assms(8) assms(9))
  then show ?thesis
    by blast
qed

theorem subscribe_acknowledged_witness:
  "ws connected_state = Some \<lparr>sock_timeout = Some 30\<rparr>
   \<and> send_raises rejecting_env (sends connected_state) = None
   \<and> all_json rejecting_env (recvs connected_state) (Suc 0)
   \<and> none_tagged rejecting_env ''subscribe'' (recvs connected_state) (Suc 0)
   \<and> in_time rejecting_env (clock rejecting_env (ticks connected_state))
        (timeout connected_state) (Suc (ticks connected_state)) (Suc (Suc 0))
   \<and> inbox rejecting_env (recvs connected_state + Suc 0) = Recv_json subscribe_rejected
   \<and> dict_tag_is subscribe_rejected ''method'' ''subscribe''
   \<and> dict_get subscribe_rejected ''success'' JNull = Inr (JBool False)
   \<and> dict_get subscribe_rejected ''error'' (JStr ''Unknown error'')
       = Inr (JStr ''Currency pair not supported XYZ/USD'')
   \<and> (\<exists>st'. subscribe rejecting_env ''ticker'' [''XYZ/USD''] [] connected_state =
         Some (Inl (ValueError ''Subscription failed: Currency pair not supported XYZ/USD''),
               st'))"
proof -
  have a: "send_raises rejecting_env (sends connected_state) = None"
    and b: "all_json rejecting_env (recvs connected_state) (Suc 0)"
    and c: "none_tagged rejecting_env ''subscribe'' (recvs connected_state) (Suc 0)"
    and d: "in_time rejecting_env (clock rejecting_env (ticks connected_state))
        (timeout connected_state) (Suc (ticks connected_state)) (Suc (Suc 0))"
    and f: "inbox rejecting_env (recvs connected_state + Suc 0) = Recv_json subscribe_rejected"
    by (simp_all add: rejecting_env_def none_tagged_def run_defs)
  have g: "dict_tag_is subscribe_rejected ''method'' ''subscribe''"
    and h: "dict_get subscribe_rejected ''success'' JNull = Inr (JBool False)"
    and i: "dict_get subscribe_rejected ''error'' (JStr ''Unknown error'')
       = Inr (JStr ''Currency pair not supported XYZ/USD'')"
    by (simp_all add: subscribe_rejected_def dict_tag_is_def)
  from subscribe_acknowledged [OF connected_state_ws a b c d f g h i,
      of "''ticker''" "[''XYZ/USD'']" "[]"]
  show ?thesis using a b c d f g h i connected_state_ws
    by (simp add: py_str_def)
qed




text \<open>
  C1. \<open>unsubscribe\<close> at an acknowledgment whose success flag is false: the request is
  sent, the acknowledgment arrives first, and the call returns it as its value, where
  \<open>subscribe\<close> raises \<open>ValueError\<close> on the same stream.
\<close>

theorem unsubscribe_returns_rejection:
  "dict_get unsubscribe_rejected ''success'' JNull = Inr (JBool False)
   \<and> inbox unsubscribe_rejecting_env (recvs connected_state) = Recv_json unsubscribe_rejected
   \<and> unsubscribe unsubscribe_rejecting_env ''ticker'' [''BTC/USD''] [] connected_state =
       Some (Inr unsubscribe_rejected,
             connected_state\<lparr>ticks := 2, recvs := 1, sends := 1,
               sent := [request_of ''unsubscribe'' ''ticker'' [''BTC/USD''] []]\<rparr>)"
proof -
  let ?e = unsubscribe_rejecting_env
  let ?st = "connected_state\<lparr>sends := Suc (sends connected_state),
      sent := sent connected_state @ [request_of ''unsubscribe'' ''ticker'' [''BTC/USD''] []]\<rparr>"
  have s: "send_raises ?e (sends connected_state) = None"
    by (simp add: unsubscribe_rejecting_env_def run_defs)
  have "wait_for_method ?e ''unsubscribe'' None ?st =
        Some (Inr unsubscribe_rejected, advance (Suc 0) (?st\<lparr>ticks := Suc (ticks ?st)\<rparr>))"
    by (rule wait_for_method_finds [where w = "\<lparr>sock_timeout = Some 30\<rparr>"])
       (simp_all add: unsubscribe_rejecting_env_def none_tagged_def run_defs)
  then have "unsubscribe ?e ''ticker'' [''BTC/USD''] [] connected_state =
        Some (Inr unsubscribe_rejected, advance (Suc 0) (?st\<lparr>ticks := Suc (ticks ?st)\<rparr>))"
    by (simp only: unsubscribe_sent [OF connected_state_ws s])
  then show ?thesis
    by (simp add: unsubscribe_rejecting_env_def run_defs)
qed

text \<open>
  C7, as the claim states it, fails: with one message collected and the next payload not
  JSON, \<open>receive_messages\<close> returns the collected message as its value and the decoding
  error is lost.
\<close>

theorem not_json_swallowed_counterexample:
  "inbox garbled_env 1 = Recv_not_json
   \<and> receive_messages garbled_env 2 (Some 30) connected_state =
       Some (Inr [ticker_msg], connected_state\<lparr>ticks := 3, recvs := 2\<rparr>)"
  using garbled_run by (simp add: garbled_env_def env_of_def)

text \<open>
  C7, amended. A payload that is not JSON, arriving on a connected session after \<open>n\<close>
  messages within the deadline, makes \<open>receive_message\<close> raise the decoding error, and so
  do \<open>_wait_for_method\<close>, \<open>subscribe\<close> and \<open>unsubscribe\<close> when none of the \<open>n\<close> messages is
  the acknowledgment awaited; \<open>receive_messages\<close> raises it when it has collected nothing
  and otherwise returns what it has collected. A payload that decodes is returned by
  \<open>receive_message\<close> whatever tags it has or lacks.
\<close>

theorem not_json_propagates:
  assumes "ws st = Some w"
    and "all_json e (recvs st) n"
    and "inbox e (recvs st + n) = Recv_not_json"
    and "in_time e (clock e (ticks st)) (effective t st) (Suc (ticks st)) (Suc n)"
  shows "(n = 0 \<longrightarrow> fst (receive_message e t st) = Inl JSONDecodeError)
    \<and> (\<forall>m. inbox e (recvs st) = Recv_json m \<longrightarrow> fst (receive_message e t st) = Inr m)
    \<and> (none_tagged e meth (recvs st) n \<longrightarrow>
         (\<exists>st'. wait_for_method e meth t st = Some (Inl JSONDecodeError, st')))
    \<and> (t = None \<and> send_raises e (sends st) = None
         \<and> none_tagged e ''subscribe'' (recvs st) n \<longrightarrow>
         (\<exists>st'. subscribe e channel symbol options st = Some (Inl JSONDecodeError, st')))
    \<and> (t = None \<and> send_raises e (sends st) = None
         \<and> none_tagged e ''unsubscribe'' (recvs st) n \<longrightarrow>
         (\<exists>st'. unsubscribe e channel symbol options st = Some (Inl JSONDecodeError, st')))
    \<and> (int (length (collected e (recvs st) n)) < count \<longrightarrow>
         (\<exists>st'. receive_messages e count t st =
            Some (if collected e (recvs st) n = [] then Inl JSONDecodeError
                  else Inr (collected e (recvs st) n), st')))"
proof (intro conjI impI allI)
  assume "n = 0"
  with assms(1) assms(3) show "fst (receive_message e t st) = Inl JSONDecodeError"
    by (simp add: receive_message_not_json)
next
  fix m assume "inbox e (recvs st) = Recv_json m"
  with assms(1) show "fst (receive_message e t st) = Inr m"
    by (cases t) (simp_all add: receive_message_def settimeout_def Let_def)
next
  assume "none_tagged e meth (recvs st) n"
  then show "\<exists>st'. wait_for_method e meth t st = Some (Inl JSONDecodeError, st')"
    using wait_for_method_not_json [OF assms(1) assms(2) _ assms(4) assms(3)] by blast
next
  let ?st = "st\<lparr>sends := Suc (sends st),
                 sent := sent st @ [request_of ''subscribe'' channel symbol options]\<rparr>"
  assume h: "t = None \<and> send_raises e (sends st) = None
    \<and> none_tagged e ''subscribe'' (recvs st) n"
  have "wait_for_method e ''subscribe'' None ?st =
        Some (Inl JSONDecodeError, advance (Suc n) (?st\<lparr>ticks := Suc (ticks ?st)\<rparr>))"
  proof (rule wait_for_method_not_json)
    show "ws ?st = Some w" using assms(1) by simp
    show "all_json e (recvs ?st) n" using assms(2) by simp
    show "none_tagged e ''subscribe'' (recvs ?st) n" using h by simp
    show "in_time e (clock e (ticks ?st)) (effective None ?st) (Suc (ticks ?st)) (Suc n)"
      using assms(4) h by (simp add: effective_def)
    show "inbox e (recvs ?st + n) = Recv_not_json" using assms(3) by simp
  qed
  then show "\<exists>st'. subscribe e channel symbol options st = Some (Inl JSONDecodeError, st')"
    using h by (simp add: subscribe_sent [OF assms(1)])
next
  let ?st = "st\<lparr>sends := Suc (sends st),
                 sent := sent st @ [request_of ''unsubscribe'' channel symbol options]\<rparr>"
  assume h: "t = None \<and> send_raises e (sends st) = None
    \<and> none_tagged e ''unsubscribe'' (recvs st) n"
  have "wait_for_method e ''unsubscribe'' None ?st =
        Some (Inl JSONDecodeError, advance (Suc n) (?st\<lparr>ticks := Suc (ticks ?st)\<rparr>))"
  proof (rule wait_for_method_not_json)
    show "ws ?st = Some w" using assms(1) by simp
    show "all_json e (recvs ?st) n" using assms(2) by simp
    show "none_tagged e ''unsubscribe'' (recvs ?st) n" using h by simp
    show "in_time e (clock e (ticks ?st)) (effective None ?st) (Suc (ticks ?st)) (Suc n)"
      using assms(4) h by (simp add: effective_def)
    show "inbox e (recvs ?st + n) = Recv_not_json" using assms(3) by simp
  qed
  then show "\<exists>st'. unsubscribe e channel symbol options st = Some (Inl JSONDecodeError, st')"
    using h by (simp add: unsubscribe_sent [OF assms(1)])
next
  let ?st = "st\<lparr>ticks := Suc (ticks st)\<rparr>"
  assume k: "int (length (collected e (recvs st) n)) < count"
  have "receive_loop e count (clock e (ticks st)) (effective t st) [] ?st =
        Some (if [] @ collected e (recvs ?st) n \<noteq> []
              then Inr ([] @ collected e (recvs ?st) n) else Inl JSONDecodeError,
              advance (Suc n) ?st)"
  proof (rule receive_loop_then_not_json)
    show "ws ?st = Some w" using assms(1) by simp
    show "all_json e (recvs ?st) n" using assms(2) by simp
    show "in_time e (clock e (ticks st)) (effective t st) (ticks ?st) (Suc n)"
      using assms(4) by simp
    show "int (length ([] :: json list)) + int (length (collected e (recvs ?st) n)) < count"
      using k by simp
    show "inbox e (recvs ?st + n) = Recv_not_json" using assms(3) by simp
  qed
  then show "\<exists>st'. receive_messages e count t st =
            Some (if collected e (recvs st) n = [] then Inl JSONDecodeError
                  else Inr (collected e (recvs st) n), st')"
    by (simp add: receive_messages_loop)
qed

theorem not_json_propagates_witness:
  "ws connected_state = Some \<lparr>sock_timeout = Some 30\<rparr>
   \<and> all_json garbage_env (recvs connected_state) 0
   \<and> inbox garbage_env (recvs connected_state + 0) = Recv_not_json
   \<and> in_time garbage_env (clock garbage_env (ticks connected_state))
        (effective None connected_state) (Suc (ticks connected_state)) (Suc 0)
   \<and> send_raises garbage_env (sends connected_state) = None
   \<and> none_tagged garbage_env ''subscribe'' (recvs connected_state) 0
   \<and> none_tagged garbage_env ''unsubscribe'' (recvs connected_state) 0
   \<and> collected garbage_env (recvs connected_state) 0 = []
   \<and> fst (receive_message garbage_env None connected_state) = Inl JSONDecodeError
   \<and> (\<exists>st'. wait_for_method garbage_env ''subscribe'' None connected_state
               = Some (Inl JSONDecodeError, st'))
   \<and> (\<exists>st'. subscribe garbage_env ''ticker'' [''BTC/USD''] [] connected_state
               = Some (Inl JSONDecodeError, st'))
   \<and> (\<exists>st'. unsubscribe garbage_env ''ticker'' [''BTC/USD''] [] connected_state
               = Some (Inl JSONDecodeError, st'))
   \<and> (\<exists>st'. receive_messages garbage_env 2 None connected_state
               = Some (Inl JSONDecodeError, st'))"
proof -
  have a: "all_json garbage_env (recvs connected_state) 0"
    and b: "inbox garbage_env (recvs connected_state + 0) = Recv_not_json"
    and c: "in_time garbage_env (clock garbage_env (ticks connected_state))
        (effective None connected_state) (Suc (ticks connected_state)) (Suc 0)"
    and d: "send_raises garbage_env (sends connected_state) = None"
    and f: "none_tagged garbage_env ''subscribe'' (recvs connected_state) 0"
      "none_tagged garbage_env ''unsubscribe'' (recvs connected_state) 0"
    and g: "collected garbage_env (recvs connected_state) 0 = []"
    by (simp_all add: garbage_env_def none_tagged_def collected_def run_defs)
  from not_json_propagates [OF connected_state_ws a b c,
      of "''subscribe''" "''ticker''" "[''BTC/USD'']" "[]" 2]
    not_json_propagates [OF connected_state_ws a b c, of "''unsubscribe''"]
  show ?thesis using a b c d f g connected_state_ws
    by simp
qed

text \<open>
  C8. For levels that each have a price and a quantity, \<open>calculate_book_checksum\<close>
  returns the CRC-32 of the string that interleaves, level by level over the top \<open>depth\<close>
  levels of each side (the slice \<^verbatim>\<open>[:depth]\<close>, which is the first \<open>depth\<close> levels for every
  depth that is not negative), the price and quantity strings of the ask and then those of
  the bid, with the points removed. Whatever it returns, for any lists and any depth, lies
  in \<open>[0, 2^32)\<close>. The integrity test does not compare it with the checksum received: any
  received checksum that is a positive integer passes step 7, whatever the value
  calculated.
\<close>

theorem calculate_book_checksum_crc:
  assumes "\<forall>l \<in> set (slice_to depth asks). is_level l"
    and "\<forall>l \<in> set (slice_to depth bids). is_level l"
  shows "calculate_book_checksum e bids asks depth =
           Inr (uint (zlib_crc32
             (interleaved e (slice_to depth asks) (slice_to depth bids))))
         \<and> (0 \<le> depth \<longrightarrow> slice_to depth asks = take (nat depth) asks
               \<and> slice_to depth bids = take (nat depth) bids)
         \<and> (\<forall>bs as d c. calculate_book_checksum e bs as d = Inr c \<longrightarrow> 0 \<le> c \<and> c < 2 ^ 32)
         \<and> (\<forall>received calculated violations.
               isinstance_int received \<and> 0 < int_value received
               \<and> calculate_book_checksum e bids asks 10 = Inr calculated
               \<longrightarrow> checksum_validation e received bids asks violations = Inr violations)"
proof (intro conjI allI impI)
  show "calculate_book_checksum e bids asks depth =
           Inr (uint (zlib_crc32
             (interleaved e (slice_to depth asks) (slice_to depth bids))))"
    by (rule calculate_book_checksum_levels [OF assms])
next
  assume "0 \<le> depth"
  then show "slice_to depth asks = take (nat depth) asks"
    and "slice_to depth bids = take (nat depth) bids"
    by (simp_all add: slice_to_nonneg)
next
  fix bs as d c
  assume "calculate_book_checksum e bs as d = Inr c"
  then have "0 \<le> c \<and> c < 2 ^ 32"
    by (rule calculate_book_checksum_range)
  then show "0 \<le> c" and "c < 2 ^ 32" by simp_all
next
  fix received calculated violations
  assume "isinstance_int received \<and> 0 < int_value received
               \<and> calculate_book_checksum e bids asks 10 = Inr calculated"
  then show "checksum_validation e received bids asks violations = Inr violations"
    by (simp add: checksum_validation_def)
qed

theorem calculate_book_checksum_crc_witness:
  "list_all is_level (slice_to 10 example_asks)
   \<and> list_all is_level (slice_to 10 example_bids)
   \<and> (0::int) \<le> 10
   \<and> interleaved noisy_env (slice_to 10 example_asks) (slice_to 10 example_bids)
       = ''1010510015''
   \<and> calculate_book_checksum noisy_env example_bids example_asks 10 = Inr 668364443
   \<and> isinstance_int (JInt 1) \<and> 0 < int_value (JInt 1)
   \<and> checksum_validation noisy_env (JInt 1) example_bids example_asks [] = Inr []"
proof -
  have a: "\<forall>l \<in> set (slice_to 10 example_asks). is_level l"
    and b: "\<forall>l \<in> set (slice_to 10 example_bids). is_level l"
    by (simp_all add: slice_to_def example_asks_def example_bids_def is_level_def)
  have s: "interleaved noisy_env (slice_to 10 example_asks) (slice_to 10 example_bids)
       = ''1010510015''"
    by (simp add: slice_to_def example_asks_def example_bids_def level_text_def
          level_parts_def remove_points_def py_str_def str_int_def str_nat.simps [of 101]
          str_nat.simps [of 100] str_nat.simps [of 10] str_nat_digit digit_char_def)
  have "zlib_crc32 ''1010510015'' = 668364443"
    by (simp add: zlib_crc32_def crc_byte_def crc_shift_def funpow_8)
  then have c: "uint (zlib_crc32 ''1010510015'') = 668364443"
    by simp
  from calculate_book_checksum_crc [OF a b, of noisy_env]
  show ?thesis using a b s c
    by (simp add: list_all_iff)
qed

end
